theory Spec2Isabelle
  imports Main "HOL-Library.Word"
begin

unbundle bit_operations_syntax

section \<open>Go primitives used by the worker pool\<close>

text \<open>
  The pool is a concurrent Go program: a relay goroutine (\<open>ElasticBuf.Run\<close>), worker
  goroutines (\<open>spawnOneWorker\<close>) and the goroutines that call the pool's methods. It is
  modelled as an interleaving of atomic actions on one shared state. An action that cannot
  proceed in a state (a blocking channel operation, a \<open>select\<close> case that is not ready) is
  \<open>Blocked\<close>; a Go run-time panic is a value of its own.
\<close>

datatype panic =
    Send_on_closed_channel
  | Close_of_nil_channel
  | Close_of_closed_channel
  | Negative_WaitGroup_counter

datatype 'a outcome = Blocked | Panic panic | Next 'a

fun and_then :: "'a outcome \<Rightarrow> ('a \<Rightarrow> 'b outcome) \<Rightarrow> 'b outcome" where
  "and_then Blocked f = Blocked"
| "and_then (Panic p) f = Panic p"
| "and_then (Next x) f = f x"

subsection \<open>Buffered channels\<close>

text \<open>
  A buffered Go channel: the queued values, oldest first, and whether \<open>close\<close> was called.
  Both channels of the elastic buffer are made with capacity \<open>defaultChanSize\<close>.
\<close>

record 'a chan =
  items :: "'a list"
  closed :: bool

definition defaultChanSize :: nat where
  "defaultChanSize = 2"

definition make_chan :: "'a chan" where
  "make_chan = \<lparr>items = [], closed = False\<rparr>"

text \<open>\<open>c <- x\<close>: panics on a closed channel, blocks while the buffer is full.\<close>

definition send :: "'a \<Rightarrow> 'a chan \<Rightarrow> 'a chan outcome" where
  "send x c =
     (if closed c then Panic Send_on_closed_channel
      else if length (items c) < defaultChanSize then Next (c\<lparr>items := items c @ [x]\<rparr>)
      else Blocked)"

text \<open>\<open>select { case c <- x: ... default: ... }\<close>: the send is taken when it can proceed
  at once, otherwise the default case is (\<open>False\<close>).\<close>

definition try_send :: "'a \<Rightarrow> 'a chan \<Rightarrow> (bool \<times> 'a chan) outcome" where
  "try_send x c =
     (if closed c then Panic Send_on_closed_channel
      else if length (items c) < defaultChanSize then Next (True, c\<lparr>items := items c @ [x]\<rparr>)
      else Next (False, c))"

text \<open>\<open>e, ok := <-c\<close>: queued values are received first (\<open>ok\<close> true, here \<open>Some e\<close>); a
  closed and drained channel yields \<open>ok\<close> false (here \<open>None\<close>); an open empty channel blocks
  (the outer \<open>None\<close>).\<close>

definition recv :: "'a chan \<Rightarrow> ('a option \<times> 'a chan) option" where
  "recv c =
     (case items c of
        x # xs \<Rightarrow> Some (Some x, c\<lparr>items := xs\<rparr>)
      | [] \<Rightarrow> if closed c then Some (None, c) else None)"

definition close_chan :: "'a chan \<Rightarrow> 'a chan outcome" where
  "close_chan c = (if closed c then Panic Close_of_closed_channel else Next (c\<lparr>closed := True\<rparr>))"

section \<open>The state of a pool\<close>

text \<open>A value sent through the pool: an \<open>IWorkload\<close> (identified by a number), or the nil
  interface value, which fails the type assertion \<open>job.(IWorkload)\<close> in the worker.\<close>

datatype job = Workload nat | Nil_Workload

text \<open>A worker goroutine is waiting in its \<open>select\<close>, inside \<open>work.Work()\<close>, or has returned.\<close>

datatype worker = Selecting | Working job | Exited

text \<open>The relay goroutine started by \<open>ElasticBuf.Run\<close>.\<close>

datatype relay_pc = Not_Started | Running | Returned

text \<open>A goroutine calling \<open>AddTask\<close>, by the source line it executes next.\<close>

datatype pc =
    Idle
  | L102 job
  | L107 job
  | L108 job
  | L109
  | L111 job
  | L114 job
  | L115
  | L115_cas "64 word"
  | L116

text \<open>
  The fields of \<open>workerpool\<close>, \<open>ElasticBuf\<close> (\<open>In\<close>, \<open>Out\<close>, \<open>buf\<close>; a nil channel is
  \<open>None\<close>, and only \<open>In\<close> is ever set to nil) and \<open>ExtWaitGroup\<close> (\<open>WaitGroup\<close>,
  \<open>waitCount\<close>), the goroutines, and history fields that only record what happened:
  \<open>admitted\<close> the values sent on \<open>In\<close>, \<open>delivered\<close> the values the relay loop handed to
  \<open>Out\<close>, \<open>executed\<close> the workloads whose \<open>Work()\<close> returned, \<open>logs\<close> the lines logged.

  Of the platform's \<open>sync.WaitGroup\<close> the state is its counter, of the platform's
  \<open>context.Context\<close> whether \<open>cancel\<close> was called.
\<close>

record pool =
  workerCount :: "64 word"
  down :: bool
  cancelled :: bool
  In :: "job chan option"
  Out :: "job chan"
  buf :: "job list"
  WaitGroup :: int
  waitCount :: "64 word"
  relay :: relay_pc
  workers :: "worker list"
  callers :: "nat \<Rightarrow> pc"
  admitted :: "job list"
  delivered :: "job list"
  executed :: "job list"
  logs :: "string list"

section \<open>ExtWaitGroup\<close>

text \<open>Modelled from the spec: \<open>sync.WaitGroup\<close> is the platform's blocking counter (a
  non-negative count with a wait-until-zero operation); its source is not among the pool's
  files. \<open>WaitGroup.Add(n)\<close> adds \<open>n\<close> to the counter and panics when the counter would
  go negative; \<open>WaitGroup.Done()\<close> is \<open>Add(-1)\<close>.\<close>

definition WaitGroup_Add :: "int \<Rightarrow> pool \<Rightarrow> pool outcome" where
  "WaitGroup_Add n s =
     (if WaitGroup s + n < 0 then Panic Negative_WaitGroup_counter
      else Next (s\<lparr>WaitGroup := WaitGroup s + n\<rparr>))"

text \<open>\<open>Add(n int) uint64\<close>; Go's \<open>int\<close> is a 64-bit word read as two's complement.\<close>

definition Add :: "64 word \<Rightarrow> pool \<Rightarrow> (64 word \<times> pool) outcome" where
  "Add n s =
     and_then (WaitGroup_Add (sint n) s)
       (\<lambda>s1. Next (waitCount s1 + n, s1\<lparr>waitCount := waitCount s1 + n\<rparr>))"

definition CompareAndAdd :: "64 word \<Rightarrow> 64 word \<Rightarrow> pool \<Rightarrow> (bool \<times> pool) outcome" where
  "CompareAndAdd old delta s =
     (if waitCount s \<noteq> old then Next (False, s)
      else and_then (WaitGroup_Add (sint delta) (s\<lparr>waitCount := old + delta\<rparr>))
             (\<lambda>s1. Next (True, s1)))"

definition Done :: "pool \<Rightarrow> pool outcome" where
  "Done s =
     and_then (WaitGroup_Add (- 1) s)
       (\<lambda>s1. Next (s1\<lparr>waitCount := waitCount s1 + NOT 0\<rparr>))"

definition GetWaitCount :: "pool \<Rightarrow> 64 word" where
  "GetWaitCount s = waitCount s"

text \<open>Modelled from the spec: \<open>Wait()\<close> is the embedded WaitGroup's; it blocks until the
  counter is zero.\<close>

definition Wait :: "pool \<Rightarrow> pool outcome" where
  "Wait s = (if WaitGroup s = 0 then Next s else Blocked)"

section \<open>ElasticBuf\<close>

text \<open>The \<open>select\<close> case the relay loop takes in one iteration.\<close>

datatype relay_case = Recv_In | Send_Out | Relay_Ctx_Done

text \<open>
  One iteration of the loop of \<open>run\<close>. With a non-empty \<open>buf\<close> the select has three cases,
  with an empty one two. A receive on the nil \<open>In\<close> never proceeds. The \<open>break\<close> after
  \<open>eb.In = nil\<close> leaves the select, not the loop.
\<close>

definition Run_loop :: "relay_case \<Rightarrow> pool \<Rightarrow> pool outcome" where
  "Run_loop c s =
     (if relay s \<noteq> Running then Blocked
      else case buf s of
        b # bs \<Rightarrow>
          (case c of
             Recv_In \<Rightarrow>
               (case In s of
                  None \<Rightarrow> Blocked
                | Some ch \<Rightarrow>
                    (case recv ch of
                       None \<Rightarrow> Blocked
                     | Some (None, ch') \<Rightarrow> Next (s\<lparr>In := None\<rparr>)
                     | Some (Some e, ch') \<Rightarrow> Next (s\<lparr>In := Some ch', buf := buf s @ [e]\<rparr>)))
           | Send_Out \<Rightarrow>
               and_then (send b (Out s))
                 (\<lambda>out'. Next (s\<lparr>Out := out', buf := bs, delivered := delivered s @ [b]\<rparr>))
           | Relay_Ctx_Done \<Rightarrow> if cancelled s then Next (s\<lparr>relay := Returned\<rparr>) else Blocked)
      | [] \<Rightarrow>
          (case c of
             Recv_In \<Rightarrow>
               (case In s of
                  None \<Rightarrow> Blocked
                | Some ch \<Rightarrow>
                    (case recv ch of
                       None \<Rightarrow> Blocked
                     | Some (None, ch') \<Rightarrow>
                         and_then (close_chan (Out s))
                           (\<lambda>out'. Next (s\<lparr>Out := out', relay := Returned\<rparr>))
                     | Some (Some e, ch') \<Rightarrow> Next (s\<lparr>In := Some ch', buf := buf s @ [e]\<rparr>)))
           | Send_Out \<Rightarrow> Blocked
           | Relay_Ctx_Done \<Rightarrow> if cancelled s then Next (s\<lparr>relay := Returned\<rparr>) else Blocked))"

section \<open>The worker pool\<close>

definition NewWorkerpool :: "64 word \<Rightarrow> pool option" where
  "NewWorkerpool n =
     (if sint n \<le> 0 then None
      else Some \<lparr>workerCount = n, down = False, cancelled = False,
                 In = Some make_chan, Out = make_chan, buf = [],
                 WaitGroup = 0, waitCount = 0,
                 relay = Not_Started, workers = [], callers = (\<lambda>t. Idle),
                 admitted = [], delivered = [], executed = [], logs = []\<rparr>)"

text \<open>\<open>go p.spawnOneWorker()\<close>: a new goroutine, at the select of its loop.\<close>

definition go_spawnOneWorker :: "pool \<Rightarrow> pool" where
  "go_spawnOneWorker s = s\<lparr>workers := workers s @ [Selecting]\<rparr>"

text \<open>The \<open>select\<close> case a worker takes, or the return of the \<open>Work()\<close> it is in.\<close>

datatype worker_case = Recv_Out | Idle_Timeout | Ctx_Done | Work_Returns

text \<open>Every \<open>return\<close> of \<open>spawnOneWorker\<close> runs the deferred \<open>p.Done()\<close>.\<close>

definition worker_return :: "nat \<Rightarrow> pool \<Rightarrow> pool outcome" where
  "worker_return i s =
     and_then (Done s) (\<lambda>s1. Next (s1\<lparr>workers := (workers s1)[i := Exited]\<rparr>))"

text \<open>
  One action of worker \<open>i\<close>. The idle timer of \<open>maxIdleDuration\<close> is abstracted from real
  time: it can fire only while no job can be received from \<open>Out\<close>.
\<close>

fun worker_action :: "worker \<Rightarrow> worker_case \<Rightarrow> nat \<Rightarrow> pool \<Rightarrow> pool outcome" where
  "worker_action Selecting Recv_Out i s =
     (case recv (Out s) of
        None \<Rightarrow> Blocked
      | Some (None, out') \<Rightarrow> worker_return i s
      | Some (Some (Workload n), out') \<Rightarrow>
          Next (s\<lparr>Out := out', workers := (workers s)[i := Working (Workload n)]\<rparr>)
      | Some (Some Nil_Workload, out') \<Rightarrow>
          Next (s\<lparr>Out := out', logs := logs s @ [''Error: Unexpected job type'']\<rparr>))"
| "worker_action Selecting Idle_Timeout i s =
     (if recv (Out s) = None then worker_return i s else Blocked)"
| "worker_action Selecting Ctx_Done i s =
     (if cancelled s then worker_return i s else Blocked)"
| "worker_action (Working j) Work_Returns i s =
     Next (s\<lparr>workers := (workers s)[i := Selecting], executed := executed s @ [j]\<rparr>)"
| "worker_action w c i s = Blocked"

definition spawnOneWorker :: "nat \<Rightarrow> worker_case \<Rightarrow> pool \<Rightarrow> pool outcome" where
  "spawnOneWorker i c s =
     (if i < length (workers s) then worker_action (workers s ! i) c i s else Blocked)"

text \<open>
  \<open>Start\<close>, \<open>Shutdown\<close> and \<open>Down\<close> are straight-line code that cannot block; each call
  is one atomic action, so two goroutines racing inside them on the unsynchronised \<open>down\<close>
  flag are not covered. There is one relay loop: a second \<open>Start\<close>, which would run a
  second loop on the same \<open>buf\<close>, is not an action of the model.
\<close>

definition Start :: "pool \<Rightarrow> pool outcome" where
  "Start s =
     (if relay s \<noteq> Not_Started then Blocked
      else and_then (Add 1 (s\<lparr>relay := Running\<rparr>)) (\<lambda>(n, s1). Next (go_spawnOneWorker s1)))"

text \<open>\<open>close(p.elasticJobBuf.In)\<close>\<close>

definition close_In :: "pool \<Rightarrow> pool outcome" where
  "close_In s =
     (case In s of
        None \<Rightarrow> Panic Close_of_nil_channel
      | Some ch \<Rightarrow> and_then (close_chan ch) (\<lambda>ch'. Next (s\<lparr>In := Some ch'\<rparr>)))"

definition Shutdown :: "pool \<Rightarrow> pool outcome" where
  "Shutdown s =
     (if down s then Next s
      else and_then (close_In s) (\<lambda>s1. Next (s1\<lparr>down := True\<rparr>)))"

definition Down :: "pool \<Rightarrow> pool outcome" where
  "Down s =
     (if down s then Next s
      else and_then (close_In s) (\<lambda>s1. Next (s1\<lparr>cancelled := True, down := True\<rparr>)))"

text \<open>\<open>p.elasticJobBuf.In <- work\<close>, then on to the next line.\<close>

definition send_In :: "job \<Rightarrow> pool \<Rightarrow> pool outcome" where
  "send_In w s =
     (case In s of
        None \<Rightarrow> Blocked
      | Some ch \<Rightarrow>
          and_then (send w ch) (\<lambda>ch'. Next (s\<lparr>In := Some ch', admitted := admitted s @ [w]\<rparr>)))"

definition goto :: "nat \<Rightarrow> pc \<Rightarrow> pool \<Rightarrow> pool" where
  "goto t l s = s\<lparr>callers := (callers s)(t := l)\<rparr>"

text \<open>
  \<open>AddTask\<close>, one atomic action per line that reads or writes shared state, so that
  other goroutines can run between the read of \<open>wc\<close> and the compare-and-add, and while
  a send on \<open>In\<close> blocks.
\<close>

definition AddTask :: "nat \<Rightarrow> pool \<Rightarrow> pool outcome" where
  "AddTask t s =
     (case callers s t of
        Idle \<Rightarrow> Blocked
      | L102 w \<Rightarrow>
          if down s
          then Next (goto t Idle (s\<lparr>logs := logs s @ [''Error: add task into closed pool'']\<rparr>))
          else Next (goto t (L107 w) s)
      | L107 w \<Rightarrow>
          if GetWaitCount s = 0 then Next (goto t (L108 w) s) else Next (goto t (L111 w) s)
      | L108 w \<Rightarrow> and_then (send_In w s) (\<lambda>s1. Next (goto t L109 s1))
      | L109 \<Rightarrow> Next (go_spawnOneWorker (goto t Idle s))
      | L111 w \<Rightarrow>
          and_then (try_send w (Out s))
            (\<lambda>(sent, out'). if sent then Next (goto t Idle (s\<lparr>Out := out'\<rparr>))
                             else Next (goto t (L114 w) s))
      | L114 w \<Rightarrow> and_then (send_In w s) (\<lambda>s1. Next (goto t L115 s1))
      | L115 \<Rightarrow> Next (goto t (L115_cas (GetWaitCount s)) s)
      | L115_cas wc \<Rightarrow>
          if wc < workerCount s
          then and_then (CompareAndAdd wc 1 s)
                 (\<lambda>(ok, s1). if ok then Next (goto t L116 s1) else Next (goto t Idle s1))
          else Next (goto t Idle s)
      | L116 \<Rightarrow> Next (go_spawnOneWorker (goto t Idle s)))"

section \<open>Runs\<close>

datatype event =
    Call_Start
  | Call_AddTask nat job
  | Step_AddTask nat
  | Call_Shutdown
  | Call_Down
  | Call_Wait
  | Relay relay_case
  | Worker nat worker_case

fun step :: "event \<Rightarrow> pool \<Rightarrow> pool outcome" where
  "step Call_Start s = Start s"
| "step (Call_AddTask t w) s = (if callers s t = Idle then Next (goto t (L102 w) s) else Blocked)"
| "step (Step_AddTask t) s = AddTask t s"
| "step Call_Shutdown s = Shutdown s"
| "step Call_Down s = Down s"
| "step Call_Wait s = Wait s"
| "step (Relay c) s = Run_loop c s"
| "step (Worker i c) s = spawnOneWorker i c s"

fun run :: "event list \<Rightarrow> pool \<Rightarrow> pool outcome" where
  "run [] s = Next s"
| "run (e # es) s = and_then (step e s) (run es)"


section \<open>Properties of runs\<close>

text \<open>The values still queued in the channel \<open>In\<close>; a nil channel holds none.\<close>

definition In_items :: "pool \<Rightarrow> job list" where
  "In_items s = (case In s of None \<Rightarrow> [] | Some ch \<Rightarrow> items ch)"

text \<open>What was sent on \<open>In\<close> is what the relay loop handed on, then what it buffers, then
  what still waits in \<open>In\<close>, in this order.\<close>

definition fifo_inv :: "pool \<Rightarrow> bool" where
  "fifo_inv s \<longleftrightarrow> admitted s = delivered s @ buf s @ In_items s"

text \<open>The channel \<open>In\<close> of a pool that is not down is an open channel.\<close>

definition open_inv :: "pool \<Rightarrow> bool" where
  "open_inv s \<longleftrightarrow> (\<not> down s \<longrightarrow> (\<exists>ch. In s = Some ch \<and> \<not> closed ch))"

text \<open>A run of a freshly constructed pool of capacity \<open>n\<close>.\<close>

definition fresh_run :: "64 word \<Rightarrow> event list \<Rightarrow> pool outcome" where
  "fresh_run n evs = (case NewWorkerpool n of None \<Rightarrow> Blocked | Some s \<Rightarrow> run evs s)"


section \<open>Frame and invariant lemmas\<close>

lemma and_then_Next:
  "and_then m f = Next y \<longleftrightarrow> (\<exists>x. m = Next x \<and> f x = Next y)"
  by (cases m) auto

lemma worker_frame:
  assumes "spawnOneWorker i c s = Next s'"
  shows "In s' = In s \<and> buf s' = buf s \<and> admitted s' = admitted s \<and> delivered s' = delivered s
    \<and> down s' = down s \<and> relay s' = relay s \<and> cancelled s' = cancelled s \<and> closed (Out s') = closed (Out s)"
proof (cases "i < length (workers s)")
  case False
  with assms show ?thesis by (simp add: spawnOneWorker_def)
next
  case True
  with assms have a: "worker_action (workers s ! i) c i s = Next s'"
    by (simp add: spawnOneWorker_def)
  show ?thesis
  proof (cases "workers s ! i")
    case Selecting
    with a show ?thesis
      by (cases c)
        (auto simp: worker_return_def Done_def WaitGroup_Add_def recv_def and_then_Next
          split: option.splits list.splits if_splits job.splits)
  next
    case (Working j)
    with a show ?thesis by (cases c) auto
  next
    case Exited
    with a show ?thesis by (cases c) auto
  qed
qed

lemma AddTask_frame:
  assumes "AddTask t s = Next s'"
  shows "buf s' = buf s \<and> delivered s' = delivered s \<and> down s' = down s \<and> relay s' = relay s
    \<and> cancelled s' = cancelled s \<and> closed (Out s') = closed (Out s)"
  using assms
  by (cases "callers s t")
    (auto simp: AddTask_def goto_def go_spawnOneWorker_def send_In_def send_def try_send_def
      CompareAndAdd_def WaitGroup_Add_def and_then_Next
      split: option.splits if_splits)

lemma AddTask_In:
  assumes "AddTask t s = Next s'"
  shows "(In s' = In s \<and> admitted s' = admitted s) \<or>
    (\<exists>ch w. In s = Some ch \<and> \<not> closed ch \<and> In s' = Some (ch\<lparr>items := items ch @ [w]\<rparr>) \<and> admitted s' = admitted s @ [w])"
  using assms
  by (cases "callers s t")
    (auto simp: AddTask_def goto_def go_spawnOneWorker_def send_In_def send_def try_send_def
      CompareAndAdd_def WaitGroup_Add_def and_then_Next
      split: option.splits if_splits)

lemma Run_loop_fifo:
  assumes "Run_loop c s = Next s'" "fifo_inv s"
  shows "fifo_inv s'"
  using assms
  by (cases c; cases "buf s")
    (auto simp: Run_loop_def fifo_inv_def In_items_def recv_def send_def close_chan_def and_then_Next
      split: option.splits if_splits list.splits)

lemma Run_loop_open:
  assumes "Run_loop c s = Next s'" "open_inv s"
  shows "open_inv s'"
  using assms
  by (cases c; cases "buf s")
    (auto simp: Run_loop_def open_inv_def recv_def send_def close_chan_def and_then_Next
      split: option.splits if_splits list.splits)

lemma calls_frame:
  assumes "Start s = Next s' \<or> Wait s = Next s'"
  shows "In s' = In s \<and> buf s' = buf s \<and> admitted s' = admitted s \<and> delivered s' = delivered s
    \<and> down s' = down s \<and> cancelled s' = cancelled s \<and> closed (Out s') = closed (Out s)"
  using assms
  by (auto simp: Start_def Wait_def Add_def WaitGroup_Add_def go_spawnOneWorker_def and_then_Next
      split: if_splits)

lemma close_frame:
  assumes "Shutdown s = Next s' \<or> Down s = Next s'"
  shows "buf s' = buf s \<and> admitted s' = admitted s \<and> delivered s' = delivered s
    \<and> In_items s' = In_items s \<and> down s' \<and> relay s' = relay s \<and> closed (Out s') = closed (Out s)"
  using assms
  by (auto simp: Shutdown_def Down_def close_In_def close_chan_def In_items_def and_then_Next
      split: if_splits option.splits)

lemma step_fifo:
  assumes "step e s = Next s'" "fifo_inv s"
  shows "fifo_inv s'"
proof (cases e)
  case Call_Start
  with assms calls_frame[of s s'] show ?thesis by (simp add: fifo_inv_def In_items_def)
next
  case (Call_AddTask t w)
  with assms show ?thesis by (auto simp: fifo_inv_def In_items_def goto_def split: if_splits)
next
  case (Step_AddTask t)
  with assms AddTask_frame[of t s s'] AddTask_In[of t s s'] show ?thesis
    by (auto simp: fifo_inv_def In_items_def)
next
  case Call_Shutdown
  with assms close_frame[of s s'] show ?thesis by (simp add: fifo_inv_def)
next
  case Call_Down
  with assms close_frame[of s s'] show ?thesis by (simp add: fifo_inv_def)
next
  case Call_Wait
  with assms calls_frame[of s s'] show ?thesis by (simp add: fifo_inv_def In_items_def)
next
  case (Relay c)
  with assms Run_loop_fifo show ?thesis by simp
next
  case (Worker i c)
  with assms worker_frame[of i c s s'] show ?thesis by (simp add: fifo_inv_def In_items_def)
qed

lemma step_open:
  assumes "step e s = Next s'" "open_inv s"
  shows "open_inv s'"
proof (cases e)
  case Call_Start
  with assms calls_frame[of s s'] show ?thesis by (simp add: open_inv_def)
next
  case (Call_AddTask t w)
  with assms show ?thesis by (auto simp: open_inv_def goto_def split: if_splits)
next
  case (Step_AddTask t)
  with assms AddTask_frame[of t s s'] AddTask_In[of t s s'] show ?thesis
    by (auto simp: open_inv_def)
next
  case Call_Shutdown
  with assms close_frame[of s s'] show ?thesis by (simp add: open_inv_def)
next
  case Call_Down
  with assms close_frame[of s s'] show ?thesis by (simp add: open_inv_def)
next
  case Call_Wait
  with assms calls_frame[of s s'] show ?thesis by (simp add: open_inv_def)
next
  case (Relay c)
  with assms Run_loop_open show ?thesis by simp
next
  case (Worker i c)
  with assms worker_frame[of i c s s'] show ?thesis by (simp add: open_inv_def)
qed

lemma run_invariant:
  assumes "\<And>e s s'. step e s = Next s' \<Longrightarrow> P s \<Longrightarrow> P s'"
  shows "run evs s = Next s' \<Longrightarrow> P s \<Longrightarrow> P s'"
proof (induction evs arbitrary: s)
  case Nil
  then show ?case by simp
next
  case (Cons e evs)
  from Cons.prems(1) obtain s1 where "step e s = Next s1" "run evs s1 = Next s'"
    by (auto simp: and_then_Next)
  with Cons.IH[of s1] assms[of e s s1] Cons.prems(2) show ?case by blast
qed

lemma NewWorkerpool_inv:
  assumes "NewWorkerpool n = Some s"
  shows "fifo_inv s \<and> open_inv s"
  using assms
  by (auto simp: NewWorkerpool_def fifo_inv_def open_inv_def In_items_def make_chan_def split: if_splits)

lemma fresh_run_Next:
  "fresh_run n evs = Next s \<longleftrightarrow> (\<exists>s0. NewWorkerpool n = Some s0 \<and> run evs s0 = Next s)"
  by (simp add: fresh_run_def split: option.splits)

lemma fresh_run_fifo: "fresh_run n evs = Next s \<Longrightarrow> fifo_inv s"
  using run_invariant[where P = fifo_inv, OF step_fifo] NewWorkerpool_inv
  by (auto simp: fresh_run_Next)

lemma fresh_run_open: "fresh_run n evs = Next s \<Longrightarrow> open_inv s"
  using run_invariant[where P = open_inv, OF step_open] NewWorkerpool_inv
  by (auto simp: fresh_run_Next)

lemma stopped_step:
  assumes "step e s = Next s'" "relay s = Returned"
  shows "relay s' = Returned \<and> delivered s' = delivered s \<and> buf s' = buf s"
proof (cases e)
  case Call_Start
  with assms show ?thesis by (simp add: Start_def)
next
  case (Call_AddTask t w)
  with assms show ?thesis by (auto simp: goto_def split: if_splits)
next
  case (Step_AddTask t)
  with assms AddTask_frame[of t s s'] show ?thesis by simp
next
  case Call_Shutdown
  with assms close_frame[of s s'] show ?thesis by simp
next
  case Call_Down
  with assms close_frame[of s s'] show ?thesis by simp
next
  case Call_Wait
  with assms show ?thesis by (auto simp: Wait_def split: if_splits)
next
  case (Relay c)
  with assms show ?thesis by (simp add: Run_loop_def)
next
  case (Worker i c)
  with assms worker_frame[of i c s s'] show ?thesis by simp
qed

lemma stopped_run:
  "run evs s = Next s' \<Longrightarrow> relay s = Returned \<Longrightarrow>
   relay s' = Returned \<and> delivered s' = delivered s \<and> buf s' = buf s"
proof (induction evs arbitrary: s)
  case Nil
  then show ?case by simp
next
  case (Cons e evs)
  from Cons.prems(1) obtain s1 where s1: "step e s = Next s1" "run evs s1 = Next s'"
    by (auto simp: and_then_Next)
  from stopped_step[OF s1(1) Cons.prems(2)] Cons.IH[OF s1(2)] show ?case by simp
qed

lemma nil_In_step:
  assumes "step e s = Next s'" "In s = None"
  shows "In s' = None \<and> closed (Out s') = closed (Out s)"
proof (cases e)
  case Call_Start
  with assms calls_frame[of s s'] show ?thesis by simp
next
  case (Call_AddTask t w)
  with assms show ?thesis by (auto simp: goto_def split: if_splits)
next
  case (Step_AddTask t)
  with assms AddTask_frame[of t s s'] AddTask_In[of t s s'] show ?thesis by auto
next
  case Call_Shutdown
  with assms show ?thesis by (auto simp: Shutdown_def close_In_def split: if_splits)
next
  case Call_Down
  with assms show ?thesis by (auto simp: Down_def close_In_def split: if_splits)
next
  case Call_Wait
  with assms calls_frame[of s s'] show ?thesis by simp
next
  case (Relay c)
  with assms show ?thesis
    by (cases c; cases "buf s")
      (auto simp: Run_loop_def send_def and_then_Next split: if_splits)
next
  case (Worker i c)
  with assms worker_frame[of i c s s'] show ?thesis by simp
qed

lemma nil_In_run:
  "run evs s = Next s' \<Longrightarrow> In s = None \<Longrightarrow> In s' = None \<and> closed (Out s') = closed (Out s)"
proof (induction evs arbitrary: s)
  case Nil
  then show ?case by simp
next
  case (Cons e evs)
  from Cons.prems(1) obtain s1 where s1: "step e s = Next s1" "run evs s1 = Next s'"
    by (auto simp: and_then_Next)
  from nil_In_step[OF s1(1) Cons.prems(2)] Cons.IH[OF s1(2)] show ?case by simp
qed

lemmas run_defs = fresh_run_def NewWorkerpool_def Start_def Add_def WaitGroup_Add_def
  go_spawnOneWorker_def spawnOneWorker_def worker_return_def Done_def recv_def make_chan_def
  goto_def AddTask_def GetWaitCount_def send_In_def send_def try_send_def defaultChanSize_def
  Shutdown_def Down_def close_In_def close_chan_def Wait_def Run_loop_def CompareAndAdd_def

section \<open>Submission to a pool that is down\<close>

text \<open>
  C9. A task submitted with \<open>AddTask\<close> once the pool's \<open>down\<close> flag is set: the call
  logs one diagnostic line and returns. It does not block and does not panic, the task is
  neither queued nor executed, and nothing but the log changes: the tracker, the channels,
  the buffer and the workers are those of before.
\<close>

theorem AddTask_on_closed_pool:
  assumes "down s" and "callers s t = Idle"
  shows "run [Call_AddTask t w, Step_AddTask t] s =
         Next (s\<lparr>logs := logs s @ [''Error: add task into closed pool'']\<rparr>)"
  using assms by (simp add: AddTask_def goto_def fun_upd_idem)

theorem AddTask_on_closed_pool_witness:
  "\<exists>s. fresh_run 1 [Call_Start, Call_Shutdown] = Next s \<and> down s \<and> callers s 0 = Idle
     \<and> run [Call_AddTask 0 (Workload 1), Step_AddTask 0] s =
         Next (s\<lparr>logs := logs s @ [''Error: add task into closed pool'']\<rparr>)"
proof -
  obtain s where s: "fresh_run 1 [Call_Start, Call_Shutdown] = Next s" "down s" "callers s 0 = Idle"
    by (simp add: run_defs)
  from AddTask_on_closed_pool[OF s(2,3)] s show ?thesis by blast
qed

section \<open>Shutdown and Down\<close>

text \<open>
  C8. In every state a fresh pool can reach: while the pool is not down, \<open>In\<close> is an open
  channel, \<open>Shutdown\<close> closes it and sets \<open>down\<close> without cancelling the context, and
  \<open>Down\<close> closes it, cancels the context and sets \<open>down\<close>; once the pool is down,
  \<open>Shutdown\<close> and \<open>Down\<close> return at once, without a panic and without any effect.
\<close>

theorem Shutdown_Down_effects:
  assumes "fresh_run n evs = Next s"
  shows "(\<not> down s \<longrightarrow>
           (\<exists>ch. In s = Some ch \<and> \<not> closed ch \<and>
              Shutdown s = Next (s\<lparr>In := Some (ch\<lparr>closed := True\<rparr>), down := True\<rparr>) \<and>
              Down s = Next (s\<lparr>In := Some (ch\<lparr>closed := True\<rparr>), cancelled := True, down := True\<rparr>)))
       \<and> (down s \<longrightarrow> Shutdown s = Next s \<and> Down s = Next s)"
proof (cases "down s")
  case True
  then show ?thesis by (simp add: Shutdown_def Down_def)
next
  case False
  with fresh_run_open[OF assms] obtain ch where "In s = Some ch" "\<not> closed ch"
    by (auto simp: open_inv_def)
  with False show ?thesis
    by (simp add: Shutdown_def Down_def close_In_def close_chan_def)
qed

theorem Shutdown_Down_effects_witness:
  "(\<exists>s ch. fresh_run 5 [Call_Start] = Next s \<and> \<not> down s \<and> In s = Some ch \<and> \<not> closed ch
       \<and> Shutdown s = Next (s\<lparr>In := Some (ch\<lparr>closed := True\<rparr>), down := True\<rparr>)
       \<and> Down s = Next (s\<lparr>In := Some (ch\<lparr>closed := True\<rparr>), cancelled := True, down := True\<rparr>))
 \<and> (\<exists>s. fresh_run 5 [Call_Start, Call_Down] = Next s \<and> down s
       \<and> Shutdown s = Next s \<and> Down s = Next s)"
proof
  obtain s where s: "fresh_run 5 [Call_Start] = Next s" "\<not> down s"
    by (simp add: run_defs)
  from Shutdown_Down_effects[OF s(1)] s
  show "\<exists>s ch. fresh_run 5 [Call_Start] = Next s \<and> \<not> down s \<and> In s = Some ch \<and> \<not> closed ch
       \<and> Shutdown s = Next (s\<lparr>In := Some (ch\<lparr>closed := True\<rparr>), down := True\<rparr>)
       \<and> Down s = Next (s\<lparr>In := Some (ch\<lparr>closed := True\<rparr>), cancelled := True, down := True\<rparr>)"
    by blast
  obtain s where s: "fresh_run 5 [Call_Start, Call_Down] = Next s" "down s"
    by (simp add: run_defs)
  from Shutdown_Down_effects[OF s(1)] s
  show "\<exists>s. fresh_run 5 [Call_Start, Call_Down] = Next s \<and> down s
       \<and> Shutdown s = Next s \<and> Down s = Next s"
    by blast
qed

section \<open>Order of the buffered path\<close>

text \<open>
  C3. In every state a fresh pool can reach, the values sent on \<open>In\<close>, in the order of the
  sends, are the values the relay loop has handed to \<open>Out\<close>, followed by those it buffers,
  followed by those still queued in \<open>In\<close>; and a hand-off of the relay loop moves the oldest
  buffered value to the end of \<open>Out\<close>. So the relay loop hands values on in exactly the
  order of their admission.
\<close>

theorem relay_preserves_admission_order:
  assumes "fresh_run n evs = Next s"
  shows "admitted s = delivered s @ buf s @ In_items s
       \<and> (\<forall>s'. Run_loop Send_Out s = Next s' \<longrightarrow>
            (\<exists>b. buf s = b # buf s' \<and> delivered s' = delivered s @ [b]
                \<and> items (Out s') = items (Out s) @ [b]))"
proof
  from fresh_run_fifo[OF assms] show "admitted s = delivered s @ buf s @ In_items s"
    by (simp add: fifo_inv_def)
  show "\<forall>s'. Run_loop Send_Out s = Next s' \<longrightarrow>
            (\<exists>b. buf s = b # buf s' \<and> delivered s' = delivered s @ [b]
                \<and> items (Out s') = items (Out s) @ [b])"
    by (auto simp: Run_loop_def send_def and_then_Next split: if_splits list.splits)
qed

theorem relay_preserves_admission_order_witness:
  "\<exists>s. fresh_run 1
        [Call_Start,
         Call_AddTask 0 (Workload 1), Step_AddTask 0, Step_AddTask 0, Step_AddTask 0,
         Call_AddTask 0 (Workload 2), Step_AddTask 0, Step_AddTask 0, Step_AddTask 0,
         Call_AddTask 0 (Workload 3), Step_AddTask 0, Step_AddTask 0, Step_AddTask 0,
           Step_AddTask 0, Step_AddTask 0, Step_AddTask 0,
         Call_AddTask 0 (Workload 4), Step_AddTask 0, Step_AddTask 0, Step_AddTask 0,
           Step_AddTask 0, Step_AddTask 0, Step_AddTask 0,
         Relay Recv_In,
         Call_AddTask 0 (Workload 5), Step_AddTask 0, Step_AddTask 0, Step_AddTask 0,
           Step_AddTask 0, Step_AddTask 0, Step_AddTask 0,
         Relay Recv_In, Worker 0 Recv_Out] = Next s
     \<and> admitted s = [Workload 3, Workload 4, Workload 5]
     \<and> buf s = [Workload 3, Workload 4] \<and> In_items s = [Workload 5]
     \<and> admitted s = delivered s @ buf s @ In_items s
     \<and> (\<exists>s'. Run_loop Send_Out s = Next s' \<and> buf s = Workload 3 # buf s'
           \<and> delivered s' = delivered s @ [Workload 3]
           \<and> items (Out s') = items (Out s) @ [Workload 3])"
proof -
  obtain s where s: "fresh_run 1
        [Call_Start,
         Call_AddTask 0 (Workload 1), Step_AddTask 0, Step_AddTask 0, Step_AddTask 0,
         Call_AddTask 0 (Workload 2), Step_AddTask 0, Step_AddTask 0, Step_AddTask 0,
         Call_AddTask 0 (Workload 3), Step_AddTask 0, Step_AddTask 0, Step_AddTask 0,
           Step_AddTask 0, Step_AddTask 0, Step_AddTask 0,
         Call_AddTask 0 (Workload 4), Step_AddTask 0, Step_AddTask 0, Step_AddTask 0,
           Step_AddTask 0, Step_AddTask 0, Step_AddTask 0,
         Relay Recv_In,
         Call_AddTask 0 (Workload 5), Step_AddTask 0, Step_AddTask 0, Step_AddTask 0,
           Step_AddTask 0, Step_AddTask 0, Step_AddTask 0,
         Relay Recv_In, Worker 0 Recv_Out] = Next s"
     "admitted s = [Workload 3, Workload 4, Workload 5]"
     "buf s = [Workload 3, Workload 4]" "In_items s = [Workload 5]"
     "\<exists>s'. Run_loop Send_Out s = Next s'"
    by (simp add: run_defs In_items_def)
  from s(5) obtain s' where s': "Run_loop Send_Out s = Next s'" by blast
  from relay_preserves_admission_order[OF s(1)] s s' show ?thesis by fastforce
qed

section \<open>Cancellation of the relay loop\<close>

text \<open>
  C7. When the context is cancelled and the running relay loop takes the \<open>ctx.Done()\<close>
  case, it returns, whatever \<open>buf\<close> holds; in every continuation of the run the loop stays
  returned, hands nothing more to \<open>Out\<close>, and the buffered values stay where they are.
\<close>

theorem cancellation_discards_buffer:
  assumes "relay s = Running" and "cancelled s"
  shows "Run_loop Relay_Ctx_Done s = Next (s\<lparr>relay := Returned\<rparr>)
       \<and> (\<forall>evs s'. run evs (s\<lparr>relay := Returned\<rparr>) = Next s' \<longrightarrow>
            relay s' = Returned \<and> delivered s' = delivered s \<and> buf s' = buf s
            \<and> Run_loop Send_Out s' = Blocked)"
proof
  from assms show "Run_loop Relay_Ctx_Done s = Next (s\<lparr>relay := Returned\<rparr>)"
    by (simp add: Run_loop_def split: list.splits)
  show "\<forall>evs s'. run evs (s\<lparr>relay := Returned\<rparr>) = Next s' \<longrightarrow>
            relay s' = Returned \<and> delivered s' = delivered s \<and> buf s' = buf s
            \<and> Run_loop Send_Out s' = Blocked"
  proof (intro allI impI)
    fix evs s'
    assume "run evs (s\<lparr>relay := Returned\<rparr>) = Next s'"
    from stopped_run[OF this] show "relay s' = Returned \<and> delivered s' = delivered s \<and> buf s' = buf s
            \<and> Run_loop Send_Out s' = Blocked"
      by (simp add: Run_loop_def)
  qed
qed

theorem cancellation_discards_buffer_witness:
  "\<exists>s s'. fresh_run 1
        [Call_Start,
         Call_AddTask 0 (Workload 1), Step_AddTask 0, Step_AddTask 0, Step_AddTask 0,
         Call_AddTask 0 (Workload 2), Step_AddTask 0, Step_AddTask 0, Step_AddTask 0,
         Call_AddTask 0 (Workload 3), Step_AddTask 0, Step_AddTask 0, Step_AddTask 0,
           Step_AddTask 0, Step_AddTask 0, Step_AddTask 0,
         Relay Recv_In, Call_Down] = Next s
     \<and> relay s = Running \<and> cancelled s \<and> buf s = [Workload 3]
     \<and> Run_loop Relay_Ctx_Done s = Next (s\<lparr>relay := Returned\<rparr>)
     \<and> run [Worker 0 Recv_Out, Worker 0 Work_Returns, Relay Send_Out]
           (s\<lparr>relay := Returned\<rparr>) = Blocked
     \<and> run [Worker 0 Recv_Out, Worker 0 Work_Returns, Worker 0 Ctx_Done]
           (s\<lparr>relay := Returned\<rparr>) = Next s'
     \<and> relay s' = Returned \<and> delivered s' = delivered s \<and> buf s' = [Workload 3]"
proof -
  obtain s where s: "fresh_run 1
        [Call_Start,
         Call_AddTask 0 (Workload 1), Step_AddTask 0, Step_AddTask 0, Step_AddTask 0,
         Call_AddTask 0 (Workload 2), Step_AddTask 0, Step_AddTask 0, Step_AddTask 0,
         Call_AddTask 0 (Workload 3), Step_AddTask 0, Step_AddTask 0, Step_AddTask 0,
           Step_AddTask 0, Step_AddTask 0, Step_AddTask 0,
         Relay Recv_In, Call_Down] = Next s"
     "relay s = Running" "cancelled s" "buf s = [Workload 3]"
     "run [Worker 0 Recv_Out, Worker 0 Work_Returns, Relay Send_Out]
           (s\<lparr>relay := Returned\<rparr>) = Blocked"
     "\<exists>s'. run [Worker 0 Recv_Out, Worker 0 Work_Returns, Worker 0 Ctx_Done]
           (s\<lparr>relay := Returned\<rparr>) = Next s'"
    by (simp add: run_defs)
  from s(6) obtain s' where s': "run [Worker 0 Recv_Out, Worker 0 Work_Returns, Worker 0 Ctx_Done]
           (s\<lparr>relay := Returned\<rparr>) = Next s'" by blast
  from cancellation_discards_buffer[OF s(2,3)] s' s(4)
  have "Run_loop Relay_Ctx_Done s = Next (s\<lparr>relay := Returned\<rparr>)"
    and "relay s' = Returned \<and> delivered s' = delivered s \<and> buf s' = [Workload 3]"
    by metis+
  with s s' show ?thesis by blast
qed

section \<open>Compare-and-add of the tracker\<close>




section \<open>Admission policy of AddTask\<close>

text \<open>
  C2. \<open>AddTask\<close> on a pool that is not down. If \<open>waitCount\<close> is zero the task is sent on
  \<open>In\<close> and exactly one worker is spawned. Otherwise a non-blocking send on \<open>Out\<close> is tried:
  if \<open>Out\<close> takes the task the call returns; if not, the task is sent on \<open>In\<close>, the
  count \<open>wc\<close> is read, and one worker is spawned exactly when \<open>wc\<close> is below
  \<open>workerCount\<close> and \<open>waitCount\<close> still equals \<open>wc\<close> at the compare-and-add (which then
  makes it \<open>wc + 1\<close>); in every other case the call returns without a spawn. The states
  at the read of \<open>wc\<close> and at the compare-and-add are arbitrary, so anything may have run
  in between.
\<close>

theorem AddTask_admission_policy:
  "(callers s t = Idle \<longrightarrow> \<not> down s \<longrightarrow> waitCount s = 0 \<longrightarrow>
      In s = Some ch \<longrightarrow> \<not> closed ch \<longrightarrow> length (items ch) < defaultChanSize \<longrightarrow>
      run [Call_AddTask t w, Step_AddTask t, Step_AddTask t, Step_AddTask t, Step_AddTask t] s =
        Next (s\<lparr>In := Some (ch\<lparr>items := items ch @ [w]\<rparr>),
                workers := workers s @ [Selecting],
                admitted := admitted s @ [w]\<rparr>))
 \<and> (callers s t = Idle \<longrightarrow> \<not> down s \<longrightarrow> waitCount s \<noteq> 0 \<longrightarrow>
      \<not> closed (Out s) \<longrightarrow> length (items (Out s)) < defaultChanSize \<longrightarrow>
      run [Call_AddTask t w, Step_AddTask t, Step_AddTask t, Step_AddTask t] s =
        Next (s\<lparr>Out := (Out s)\<lparr>items := items (Out s) @ [w]\<rparr>\<rparr>))
 \<and> (callers s t = Idle \<longrightarrow> \<not> down s \<longrightarrow> waitCount s \<noteq> 0 \<longrightarrow>
      \<not> closed (Out s) \<longrightarrow> \<not> length (items (Out s)) < defaultChanSize \<longrightarrow>
      In s = Some ch \<longrightarrow> \<not> closed ch \<longrightarrow> length (items ch) < defaultChanSize \<longrightarrow>
      run [Call_AddTask t w, Step_AddTask t, Step_AddTask t, Step_AddTask t, Step_AddTask t] s =
        Next (s\<lparr>In := Some (ch\<lparr>items := items ch @ [w]\<rparr>),
                callers := (callers s)(t := L115),
                admitted := admitted s @ [w]\<rparr>))
 \<and> (callers s t = L115 \<longrightarrow>
      AddTask t s = Next (s\<lparr>callers := (callers s)(t := L115_cas (waitCount s))\<rparr>))
 \<and> (callers s t = L115_cas wc \<longrightarrow> 0 \<le> WaitGroup s \<longrightarrow>
      (if wc < workerCount s \<and> waitCount s = wc
       then run [Step_AddTask t, Step_AddTask t] s =
              Next (s\<lparr>WaitGroup := WaitGroup s + 1, waitCount := wc + 1,
                      workers := workers s @ [Selecting],
                      callers := (callers s)(t := Idle)\<rparr>)
       else AddTask t s = Next (s\<lparr>callers := (callers s)(t := Idle)\<rparr>)))"
proof (intro conjI impI)
  assume "callers s t = Idle" "\<not> down s" "waitCount s = 0"
    "In s = Some ch" "\<not> closed ch" "length (items ch) < defaultChanSize"
  then show "run [Call_AddTask t w, Step_AddTask t, Step_AddTask t, Step_AddTask t, Step_AddTask t] s =
        Next (s\<lparr>In := Some (ch\<lparr>items := items ch @ [w]\<rparr>),
                workers := workers s @ [Selecting],
                admitted := admitted s @ [w]\<rparr>)"
    by (simp add: AddTask_def goto_def GetWaitCount_def send_In_def send_def
        go_spawnOneWorker_def fun_upd_idem)
next
  assume "callers s t = Idle" "\<not> down s" "waitCount s \<noteq> 0"
    "\<not> closed (Out s)" "length (items (Out s)) < defaultChanSize"
  then show "run [Call_AddTask t w, Step_AddTask t, Step_AddTask t, Step_AddTask t] s =
        Next (s\<lparr>Out := (Out s)\<lparr>items := items (Out s) @ [w]\<rparr>\<rparr>)"
    by (simp add: AddTask_def goto_def GetWaitCount_def try_send_def fun_upd_idem)
next
  assume "callers s t = Idle" "\<not> down s" "waitCount s \<noteq> 0"
    "\<not> closed (Out s)" "\<not> length (items (Out s)) < defaultChanSize"
    "In s = Some ch" "\<not> closed ch" "length (items ch) < defaultChanSize"
  then show "run [Call_AddTask t w, Step_AddTask t, Step_AddTask t, Step_AddTask t, Step_AddTask t] s =
        Next (s\<lparr>In := Some (ch\<lparr>items := items ch @ [w]\<rparr>),
                callers := (callers s)(t := L115),
                admitted := admitted s @ [w]\<rparr>)"
    by (simp add: AddTask_def goto_def GetWaitCount_def try_send_def send_In_def send_def)
next
  assume "callers s t = L115"
  then show "AddTask t s = Next (s\<lparr>callers := (callers s)(t := L115_cas (waitCount s))\<rparr>)"
    by (simp add: AddTask_def goto_def GetWaitCount_def)
next
  assume "callers s t = L115_cas wc" "0 \<le> WaitGroup s"
  then show "if wc < workerCount s \<and> waitCount s = wc
       then run [Step_AddTask t, Step_AddTask t] s =
              Next (s\<lparr>WaitGroup := WaitGroup s + 1, waitCount := wc + 1,
                      workers := workers s @ [Selecting],
                      callers := (callers s)(t := Idle)\<rparr>)
       else AddTask t s = Next (s\<lparr>callers := (callers s)(t := Idle)\<rparr>)"
    by (simp add: AddTask_def goto_def CompareAndAdd_def WaitGroup_Add_def go_spawnOneWorker_def)
qed

theorem AddTask_admission_policy_witness:
  "(\<exists>s ch. fresh_run 5 [Call_Start, Worker 0 Idle_Timeout] = Next s
      \<and> callers s 0 = Idle
      \<and> \<not> down s
      \<and> waitCount s = 0
      \<and> In s = Some ch
      \<and> \<not> closed ch
      \<and> length (items ch) < defaultChanSize
      \<and> run [Call_AddTask 0 (Workload 7), Step_AddTask 0, Step_AddTask 0, Step_AddTask 0, Step_AddTask 0] s =
        Next (s\<lparr>In := Some (ch\<lparr>items := items ch @ [Workload 7]\<rparr>),
                workers := workers s @ [Selecting],
                admitted := admitted s @ [Workload 7]\<rparr>))
 \<and> (\<exists>s. fresh_run 5 [Call_Start] = Next s
      \<and> callers s 0 = Idle
      \<and> \<not> down s
      \<and> waitCount s \<noteq> 0
      \<and> \<not> closed (Out s)
      \<and> length (items (Out s)) < defaultChanSize
      \<and> run [Call_AddTask 0 (Workload 7), Step_AddTask 0, Step_AddTask 0, Step_AddTask 0] s =
        Next (s\<lparr>Out := (Out s)\<lparr>items := items (Out s) @ [Workload 7]\<rparr>\<rparr>))
 \<and> (\<exists>s ch. fresh_run 5
        [Call_Start,
         Call_AddTask 0 (Workload 1), Step_AddTask 0, Step_AddTask 0, Step_AddTask 0,
         Call_AddTask 0 (Workload 2), Step_AddTask 0, Step_AddTask 0, Step_AddTask 0] = Next s
      \<and> callers s 0 = Idle
      \<and> \<not> down s
      \<and> waitCount s \<noteq> 0
      \<and> \<not> closed (Out s)
      \<and> \<not> length (items (Out s)) < defaultChanSize
      \<and> In s = Some ch
      \<and> \<not> closed ch
      \<and> length (items ch) < defaultChanSize
      \<and> run [Call_AddTask 0 (Workload 7), Step_AddTask 0, Step_AddTask 0, Step_AddTask 0, Step_AddTask 0] s =
        Next (s\<lparr>In := Some (ch\<lparr>items := items ch @ [Workload 7]\<rparr>),
                callers := (callers s)(0 := L115),
                admitted := admitted s @ [Workload 7]\<rparr>))
 \<and> (\<exists>s. fresh_run 5
        [Call_Start,
         Call_AddTask 0 (Workload 1), Step_AddTask 0, Step_AddTask 0, Step_AddTask 0,
         Call_AddTask 0 (Workload 2), Step_AddTask 0, Step_AddTask 0, Step_AddTask 0,
         Call_AddTask 0 (Workload 7), Step_AddTask 0, Step_AddTask 0, Step_AddTask 0, Step_AddTask 0] = Next s
      \<and> callers s 0 = L115
      \<and> AddTask 0 s = Next (s\<lparr>callers := (callers s)(0 := L115_cas (waitCount s))\<rparr>))
 \<and> (\<exists>s. fresh_run 5
        [Call_Start,
         Call_AddTask 0 (Workload 1), Step_AddTask 0, Step_AddTask 0, Step_AddTask 0,
         Call_AddTask 0 (Workload 2), Step_AddTask 0, Step_AddTask 0, Step_AddTask 0,
         Call_AddTask 0 (Workload 7), Step_AddTask 0, Step_AddTask 0, Step_AddTask 0, Step_AddTask 0, Step_AddTask 0] = Next s
      \<and> callers s 0 = L115_cas 1
      \<and> 0 \<le> WaitGroup s
      \<and> 1 < workerCount s
      \<and> waitCount s = 1
      \<and> run [Step_AddTask 0, Step_AddTask 0] s =
        Next (s\<lparr>WaitGroup := WaitGroup s + 1, waitCount := 1 + 1,
                workers := workers s @ [Selecting],
                callers := (callers s)(0 := Idle)\<rparr>))
 \<and> (\<exists>s. fresh_run 1
        [Call_Start,
         Call_AddTask 0 (Workload 1), Step_AddTask 0, Step_AddTask 0, Step_AddTask 0,
         Call_AddTask 0 (Workload 2), Step_AddTask 0, Step_AddTask 0, Step_AddTask 0,
         Call_AddTask 0 (Workload 7), Step_AddTask 0, Step_AddTask 0, Step_AddTask 0, Step_AddTask 0, Step_AddTask 0] = Next s
      \<and> callers s 0 = L115_cas 1
      \<and> 0 \<le> WaitGroup s
      \<and> \<not> 1 < workerCount s
      \<and> AddTask 0 s = Next (s\<lparr>callers := (callers s)(0 := Idle)\<rparr>))"
proof (intro conjI)
  obtain s ch where s: "fresh_run 5 [Call_Start, Worker 0 Idle_Timeout] = Next s"
      "callers s 0 = Idle"
      "\<not> down s"
      "waitCount s = 0"
      "In s = Some ch"
      "\<not> closed ch"
      "length (items ch) < defaultChanSize"
    by (simp add: run_defs)
  from AddTask_admission_policy[where s = s and t = 0 and ch = ch and w = "Workload 7"] s
  show "\<exists>s ch. fresh_run 5 [Call_Start, Worker 0 Idle_Timeout] = Next s
      \<and> callers s 0 = Idle
      \<and> \<not> down s
      \<and> waitCount s = 0
      \<and> In s = Some ch
      \<and> \<not> closed ch
      \<and> length (items ch) < defaultChanSize
      \<and> run [Call_AddTask 0 (Workload 7), Step_AddTask 0, Step_AddTask 0, Step_AddTask 0, Step_AddTask 0] s =
        Next (s\<lparr>In := Some (ch\<lparr>items := items ch @ [Workload 7]\<rparr>),
                workers := workers s @ [Selecting],
                admitted := admitted s @ [Workload 7]\<rparr>)"
    by auto
next
  obtain s where s: "fresh_run 5 [Call_Start] = Next s"
      "callers s 0 = Idle"
      "\<not> down s"
      "waitCount s \<noteq> 0"
      "\<not> closed (Out s)"
      "length (items (Out s)) < defaultChanSize"
    by (simp add: run_defs)
  from AddTask_admission_policy[where s = s and t = 0 and w = "Workload 7"] s
  show "\<exists>s. fresh_run 5 [Call_Start] = Next s
      \<and> callers s 0 = Idle
      \<and> \<not> down s
      \<and> waitCount s \<noteq> 0
      \<and> \<not> closed (Out s)
      \<and> length (items (Out s)) < defaultChanSize
      \<and> run [Call_AddTask 0 (Workload 7), Step_AddTask 0, Step_AddTask 0, Step_AddTask 0] s =
        Next (s\<lparr>Out := (Out s)\<lparr>items := items (Out s) @ [Workload 7]\<rparr>\<rparr>)"
    by auto
next
  obtain s ch where s: "fresh_run 5
        [Call_Start,
         Call_AddTask 0 (Workload 1), Step_AddTask 0, Step_AddTask 0, Step_AddTask 0,
         Call_AddTask 0 (Workload 2), Step_AddTask 0, Step_AddTask 0, Step_AddTask 0] = Next s"
      "callers s 0 = Idle"
      "\<not> down s"
      "waitCount s \<noteq> 0"
      "\<not> closed (Out s)"
      "\<not> length (items (Out s)) < defaultChanSize"
      "In s = Some ch"
      "\<not> closed ch"
      "length (items ch) < defaultChanSize"
    by (simp add: run_defs)
  from AddTask_admission_policy[where s = s and t = 0 and ch = ch and w = "Workload 7"] s
  show "\<exists>s ch. fresh_run 5
        [Call_Start,
         Call_AddTask 0 (Workload 1), Step_AddTask 0, Step_AddTask 0, Step_AddTask 0,
         Call_AddTask 0 (Workload 2), Step_AddTask 0, Step_AddTask 0, Step_AddTask 0] = Next s
      \<and> callers s 0 = Idle
      \<and> \<not> down s
      \<and> waitCount s \<noteq> 0
      \<and> \<not> closed (Out s)
      \<and> \<not> length (items (Out s)) < defaultChanSize
      \<and> In s = Some ch
      \<and> \<not> closed ch
      \<and> length (items ch) < defaultChanSize
      \<and> run [Call_AddTask 0 (Workload 7), Step_AddTask 0, Step_AddTask 0, Step_AddTask 0, Step_AddTask 0] s =
        Next (s\<lparr>In := Some (ch\<lparr>items := items ch @ [Workload 7]\<rparr>),
                callers := (callers s)(0 := L115),
                admitted := admitted s @ [Workload 7]\<rparr>)"
    by auto
next
  obtain s where s: "fresh_run 5
        [Call_Start,
         Call_AddTask 0 (Workload 1), Step_AddTask 0, Step_AddTask 0, Step_AddTask 0,
         Call_AddTask 0 (Workload 2), Step_AddTask 0, Step_AddTask 0, Step_AddTask 0,
         Call_AddTask 0 (Workload 7), Step_AddTask 0, Step_AddTask 0, Step_AddTask 0, Step_AddTask 0] = Next s"
      "callers s 0 = L115"
    by (simp add: run_defs)
  from AddTask_admission_policy[where s = s and t = 0] s
  show "\<exists>s. fresh_run 5
        [Call_Start,
         Call_AddTask 0 (Workload 1), Step_AddTask 0, Step_AddTask 0, Step_AddTask 0,
         Call_AddTask 0 (Workload 2), Step_AddTask 0, Step_AddTask 0, Step_AddTask 0,
         Call_AddTask 0 (Workload 7), Step_AddTask 0, Step_AddTask 0, Step_AddTask 0, Step_AddTask 0] = Next s
      \<and> callers s 0 = L115
      \<and> AddTask 0 s = Next (s\<lparr>callers := (callers s)(0 := L115_cas (waitCount s))\<rparr>)"
    by auto
next
  obtain s where s: "fresh_run 5
        [Call_Start,
         Call_AddTask 0 (Workload 1), Step_AddTask 0, Step_AddTask 0, Step_AddTask 0,
         Call_AddTask 0 (Workload 2), Step_AddTask 0, Step_AddTask 0, Step_AddTask 0,
         Call_AddTask 0 (Workload 7), Step_AddTask 0, Step_AddTask 0, Step_AddTask 0, Step_AddTask 0, Step_AddTask 0] = Next s"
      "callers s 0 = L115_cas 1"
      "0 \<le> WaitGroup s"
      "1 < workerCount s"
      "waitCount s = 1"
    by (simp add: run_defs)
  from AddTask_admission_policy[where s = s and t = 0 and wc = 1] s
  show "\<exists>s. fresh_run 5
        [Call_Start,
         Call_AddTask 0 (Workload 1), Step_AddTask 0, Step_AddTask 0, Step_AddTask 0,
         Call_AddTask 0 (Workload 2), Step_AddTask 0, Step_AddTask 0, Step_AddTask 0,
         Call_AddTask 0 (Workload 7), Step_AddTask 0, Step_AddTask 0, Step_AddTask 0, Step_AddTask 0, Step_AddTask 0] = Next s
      \<and> callers s 0 = L115_cas 1
      \<and> 0 \<le> WaitGroup s
      \<and> 1 < workerCount s
      \<and> waitCount s = 1
      \<and> run [Step_AddTask 0, Step_AddTask 0] s =
        Next (s\<lparr>WaitGroup := WaitGroup s + 1, waitCount := 1 + 1,
                workers := workers s @ [Selecting],
                callers := (callers s)(0 := Idle)\<rparr>)"
    by auto
next
  obtain s where s: "fresh_run 1
        [Call_Start,
         Call_AddTask 0 (Workload 1), Step_AddTask 0, Step_AddTask 0, Step_AddTask 0,
         Call_AddTask 0 (Workload 2), Step_AddTask 0, Step_AddTask 0, Step_AddTask 0,
         Call_AddTask 0 (Workload 7), Step_AddTask 0, Step_AddTask 0, Step_AddTask 0, Step_AddTask 0, Step_AddTask 0] = Next s"
      "callers s 0 = L115_cas 1"
      "0 \<le> WaitGroup s"
      "\<not> 1 < workerCount s"
    by (simp add: run_defs)
  from AddTask_admission_policy[where s = s and t = 0 and wc = 1] s
  show "\<exists>s. fresh_run 1
        [Call_Start,
         Call_AddTask 0 (Workload 1), Step_AddTask 0, Step_AddTask 0, Step_AddTask 0,
         Call_AddTask 0 (Workload 2), Step_AddTask 0, Step_AddTask 0, Step_AddTask 0,
         Call_AddTask 0 (Workload 7), Step_AddTask 0, Step_AddTask 0, Step_AddTask 0, Step_AddTask 0, Step_AddTask 0] = Next s
      \<and> callers s 0 = L115_cas 1
      \<and> 0 \<le> WaitGroup s
      \<and> \<not> 1 < workerCount s
      \<and> AddTask 0 s = Next (s\<lparr>callers := (callers s)(0 := Idle)\<rparr>)"
    by auto
qed

section \<open>The direct hand-off\<close>

text \<open>
  C10. The channel \<open>Out\<close> has capacity 2. The non-blocking send of \<open>AddTask\<close> on the open
  \<open>Out\<close> succeeds exactly when fewer than 2 values are queued in it, whatever the workers
  are doing (the list of workers is arbitrary). In the run given, the only worker is inside
  \<open>Work()\<close> of task 1 when task 2 is handed off, and task 2 then sits in the buffer of
  \<open>Out\<close> with no worker waiting in its select.
\<close>

theorem direct_handoff_needs_only_free_slot:
  "defaultChanSize = 2
 \<and> (callers s t = L111 w \<longrightarrow> \<not> closed (Out s) \<longrightarrow>
      AddTask t (s\<lparr>workers := ws\<rparr>) =
        (if length (items (Out s)) < 2
         then Next (s\<lparr>Out := (Out s)\<lparr>items := items (Out s) @ [w]\<rparr>, workers := ws,
                      callers := (callers s)(t := Idle)\<rparr>)
         else Next (s\<lparr>workers := ws, callers := (callers s)(t := L114 w)\<rparr>)))
 \<and> map_outcome workers (fresh_run 1
        [Call_Start,
         Call_AddTask 0 (Workload 1), Step_AddTask 0, Step_AddTask 0, Step_AddTask 0,
         Worker 0 Recv_Out,
         Call_AddTask 0 (Workload 2), Step_AddTask 0, Step_AddTask 0, Step_AddTask 0])
      = Next [Working (Workload 1)]
 \<and> map_outcome Out (fresh_run 1
        [Call_Start,
         Call_AddTask 0 (Workload 1), Step_AddTask 0, Step_AddTask 0, Step_AddTask 0,
         Worker 0 Recv_Out,
         Call_AddTask 0 (Workload 2), Step_AddTask 0, Step_AddTask 0, Step_AddTask 0])
      = Next \<lparr>items = [Workload 2], closed = False\<rparr>"
proof (intro conjI impI)
  show "defaultChanSize = 2" by (simp add: defaultChanSize_def)
next
  assume "callers s t = L111 w" "\<not> closed (Out s)"
  then show "AddTask t (s\<lparr>workers := ws\<rparr>) =
        (if length (items (Out s)) < 2
         then Next (s\<lparr>Out := (Out s)\<lparr>items := items (Out s) @ [w]\<rparr>, workers := ws,
                      callers := (callers s)(t := Idle)\<rparr>)
         else Next (s\<lparr>workers := ws, callers := (callers s)(t := L114 w)\<rparr>))"
    by (simp add: AddTask_def goto_def try_send_def defaultChanSize_def)
next
  show "map_outcome workers (fresh_run 1
        [Call_Start,
         Call_AddTask 0 (Workload 1), Step_AddTask 0, Step_AddTask 0, Step_AddTask 0,
         Worker 0 Recv_Out,
         Call_AddTask 0 (Workload 2), Step_AddTask 0, Step_AddTask 0, Step_AddTask 0])
      = Next [Working (Workload 1)]"
    by (simp add: run_defs)
next
  show "map_outcome Out (fresh_run 1
        [Call_Start,
         Call_AddTask 0 (Workload 1), Step_AddTask 0, Step_AddTask 0, Step_AddTask 0,
         Worker 0 Recv_Out,
         Call_AddTask 0 (Workload 2), Step_AddTask 0, Step_AddTask 0, Step_AddTask 0])
      = Next \<lparr>items = [Workload 2], closed = False\<rparr>"
    by (simp add: run_defs)
qed

theorem direct_handoff_needs_only_free_slot_witness:
  "\<exists>s. fresh_run 1 [Call_Start, Call_AddTask 0 (Workload 1), Step_AddTask 0, Step_AddTask 0] = Next s
     \<and> callers s 0 = L111 (Workload 1) \<and> \<not> closed (Out s) \<and> length (items (Out s)) < 2
     \<and> AddTask 0 (s\<lparr>workers := []\<rparr>) =
         Next (s\<lparr>Out := (Out s)\<lparr>items := items (Out s) @ [Workload 1]\<rparr>, workers := [],
                 callers := (callers s)(0 := Idle)\<rparr>)"
proof -
  obtain s where s: "fresh_run 1 [Call_Start, Call_AddTask 0 (Workload 1), Step_AddTask 0, Step_AddTask 0] = Next s"
    "callers s 0 = L111 (Workload 1)" "\<not> closed (Out s)" "length (items (Out s)) < 2"
    by (simp add: run_defs)
  from direct_handoff_needs_only_free_slot[where s = s and t = 0 and w = "Workload 1" and ws = "[]"] s
  show ?thesis by auto
qed

section \<open>Runs in which the code departs from its documentation\<close>

text \<open>
  C1. Completeness under graceful shutdown fails in this run of a pool of capacity 5:
  \<open>Start\<close>; the first worker idles out, so \<open>waitCount\<close> is zero; \<open>AddTask\<close> of task 7
  takes the branch of line 107, which spawns a worker without adding to the tracker;
  \<open>Shutdown\<close>; \<open>Wait\<close>. \<open>Wait\<close> returns at once, with the WaitGroup counter at zero, the
  context not cancelled, task 7 sent on \<open>In\<close> and no \<open>Work()\<close> executed. When the run goes
  on and the worker has executed the task and sees \<open>Out\<close> closed, its deferred \<open>Done\<close>
  panics on the negative WaitGroup counter.
\<close>

theorem graceful_shutdown_Wait_returns_early:
  "map_outcome admitted (fresh_run 5
      [Call_Start, Worker 0 Idle_Timeout,
       Call_AddTask 0 (Workload 7), Step_AddTask 0, Step_AddTask 0, Step_AddTask 0, Step_AddTask 0,
       Call_Shutdown, Call_Wait]) = Next [Workload 7]
 \<and> map_outcome executed (fresh_run 5
      [Call_Start, Worker 0 Idle_Timeout,
       Call_AddTask 0 (Workload 7), Step_AddTask 0, Step_AddTask 0, Step_AddTask 0, Step_AddTask 0,
       Call_Shutdown, Call_Wait]) = Next []
 \<and> map_outcome cancelled (fresh_run 5
      [Call_Start, Worker 0 Idle_Timeout,
       Call_AddTask 0 (Workload 7), Step_AddTask 0, Step_AddTask 0, Step_AddTask 0, Step_AddTask 0,
       Call_Shutdown, Call_Wait]) = Next False
 \<and> fresh_run 5
      [Call_Start, Worker 0 Idle_Timeout,
       Call_AddTask 0 (Workload 7), Step_AddTask 0, Step_AddTask 0, Step_AddTask 0, Step_AddTask 0,
       Call_Shutdown, Call_Wait,
       Relay Recv_In, Relay Send_Out, Worker 1 Recv_Out, Worker 1 Work_Returns,
       Relay Recv_In, Worker 1 Recv_Out] = Panic Negative_WaitGroup_counter"
  by (simp add: run_defs)

text \<open>
  C5. Registration with the tracker fails for the worker spawned at line 109. \<open>Start\<close>
  adds 1 before it spawns. In the run below, the first worker has idled out and
  \<open>AddTask\<close> of task 7 spawns the second worker with the WaitGroup counter and
  \<open>waitCount\<close> both left at zero: the tracker received no increment for it. When that worker
  has executed the task and idles out, its deferred \<open>Done\<close> panics on the negative counter.
\<close>

theorem worker_spawned_without_increment:
  "map_outcome WaitGroup (fresh_run 5 [Call_Start]) = Next 1
 \<and> map_outcome workers (fresh_run 5
      [Call_Start, Worker 0 Idle_Timeout,
       Call_AddTask 0 (Workload 7), Step_AddTask 0, Step_AddTask 0, Step_AddTask 0, Step_AddTask 0])
     = Next [Exited, Selecting]
 \<and> map_outcome WaitGroup (fresh_run 5
      [Call_Start, Worker 0 Idle_Timeout,
       Call_AddTask 0 (Workload 7), Step_AddTask 0, Step_AddTask 0, Step_AddTask 0, Step_AddTask 0])
     = Next 0
 \<and> map_outcome waitCount (fresh_run 5
      [Call_Start, Worker 0 Idle_Timeout,
       Call_AddTask 0 (Workload 7), Step_AddTask 0, Step_AddTask 0, Step_AddTask 0, Step_AddTask 0])
     = Next 0
 \<and> fresh_run 5
      [Call_Start, Worker 0 Idle_Timeout,
       Call_AddTask 0 (Workload 7), Step_AddTask 0, Step_AddTask 0, Step_AddTask 0, Step_AddTask 0,
       Relay Recv_In, Relay Send_Out, Worker 1 Recv_Out, Worker 1 Work_Returns,
       Worker 1 Idle_Timeout] = Panic Negative_WaitGroup_counter"
  by (simp add: run_defs)

text \<open>
  C4. Drain-then-close fails in this run of a pool of capacity 1. Tasks 1 and 2 fill
  \<open>Out\<close>, task 3 goes through \<open>In\<close> into \<open>buf\<close>, and \<open>Shutdown\<close> closes \<open>In\<close> while
  \<open>buf\<close> holds task 3. The relay loop sees the closed \<open>In\<close> with a non-empty \<open>buf\<close> and
  sets \<open>In\<close> to nil; after it has handed task 3 to \<open>Out\<close>, \<open>In\<close> is closed and \<open>buf\<close>
  is drained, but \<open>Out\<close> is open and none of the three cases of the loop can proceed. The
  worker executes all tasks, idles out, and \<open>Wait\<close> returns with \<open>Out\<close> still open.
  (By \<open>nil_In_run\<close>, no continuation of the run ever closes \<open>Out\<close>.)
\<close>

theorem relay_blocks_on_nil_In:
  "map_outcome In (fresh_run 1
      [Call_Start,
       Call_AddTask 0 (Workload 1), Step_AddTask 0, Step_AddTask 0, Step_AddTask 0,
       Call_AddTask 0 (Workload 2), Step_AddTask 0, Step_AddTask 0, Step_AddTask 0,
       Call_AddTask 0 (Workload 3), Step_AddTask 0, Step_AddTask 0, Step_AddTask 0,
         Step_AddTask 0, Step_AddTask 0, Step_AddTask 0,
       Relay Recv_In, Call_Shutdown, Relay Recv_In,
       Worker 0 Recv_Out, Worker 0 Work_Returns, Relay Send_Out]) = Next None
 \<and> map_outcome buf (fresh_run 1
      [Call_Start,
       Call_AddTask 0 (Workload 1), Step_AddTask 0, Step_AddTask 0, Step_AddTask 0,
       Call_AddTask 0 (Workload 2), Step_AddTask 0, Step_AddTask 0, Step_AddTask 0,
       Call_AddTask 0 (Workload 3), Step_AddTask 0, Step_AddTask 0, Step_AddTask 0,
         Step_AddTask 0, Step_AddTask 0, Step_AddTask 0,
       Relay Recv_In, Call_Shutdown, Relay Recv_In,
       Worker 0 Recv_Out, Worker 0 Work_Returns, Relay Send_Out]) = Next []
 \<and> map_outcome Out (fresh_run 1
      [Call_Start,
       Call_AddTask 0 (Workload 1), Step_AddTask 0, Step_AddTask 0, Step_AddTask 0,
       Call_AddTask 0 (Workload 2), Step_AddTask 0, Step_AddTask 0, Step_AddTask 0,
       Call_AddTask 0 (Workload 3), Step_AddTask 0, Step_AddTask 0, Step_AddTask 0,
         Step_AddTask 0, Step_AddTask 0, Step_AddTask 0,
       Relay Recv_In, Call_Shutdown, Relay Recv_In,
       Worker 0 Recv_Out, Worker 0 Work_Returns, Relay Send_Out])
     = Next \<lparr>items = [Workload 2, Workload 3], closed = False\<rparr>
 \<and> fresh_run 1
      [Call_Start,
       Call_AddTask 0 (Workload 1), Step_AddTask 0, Step_AddTask 0, Step_AddTask 0,
       Call_AddTask 0 (Workload 2), Step_AddTask 0, Step_AddTask 0, Step_AddTask 0,
       Call_AddTask 0 (Workload 3), Step_AddTask 0, Step_AddTask 0, Step_AddTask 0,
         Step_AddTask 0, Step_AddTask 0, Step_AddTask 0,
       Relay Recv_In, Call_Shutdown, Relay Recv_In,
       Worker 0 Recv_Out, Worker 0 Work_Returns, Relay Send_Out,
       Relay Recv_In] = Blocked
 \<and> fresh_run 1
      [Call_Start,
       Call_AddTask 0 (Workload 1), Step_AddTask 0, Step_AddTask 0, Step_AddTask 0,
       Call_AddTask 0 (Workload 2), Step_AddTask 0, Step_AddTask 0, Step_AddTask 0,
       Call_AddTask 0 (Workload 3), Step_AddTask 0, Step_AddTask 0, Step_AddTask 0,
         Step_AddTask 0, Step_AddTask 0, Step_AddTask 0,
       Relay Recv_In, Call_Shutdown, Relay Recv_In,
       Worker 0 Recv_Out, Worker 0 Work_Returns, Relay Send_Out,
       Relay Send_Out] = Blocked
 \<and> fresh_run 1
      [Call_Start,
       Call_AddTask 0 (Workload 1), Step_AddTask 0, Step_AddTask 0, Step_AddTask 0,
       Call_AddTask 0 (Workload 2), Step_AddTask 0, Step_AddTask 0, Step_AddTask 0,
       Call_AddTask 0 (Workload 3), Step_AddTask 0, Step_AddTask 0, Step_AddTask 0,
         Step_AddTask 0, Step_AddTask 0, Step_AddTask 0,
       Relay Recv_In, Call_Shutdown, Relay Recv_In,
       Worker 0 Recv_Out, Worker 0 Work_Returns, Relay Send_Out,
       Relay Relay_Ctx_Done] = Blocked
 \<and> map_outcome Out (fresh_run 1
      [Call_Start,
       Call_AddTask 0 (Workload 1), Step_AddTask 0, Step_AddTask 0, Step_AddTask 0,
       Call_AddTask 0 (Workload 2), Step_AddTask 0, Step_AddTask 0, Step_AddTask 0,
       Call_AddTask 0 (Workload 3), Step_AddTask 0, Step_AddTask 0, Step_AddTask 0,
         Step_AddTask 0, Step_AddTask 0, Step_AddTask 0,
       Relay Recv_In, Call_Shutdown, Relay Recv_In,
       Worker 0 Recv_Out, Worker 0 Work_Returns, Relay Send_Out,
       Worker 0 Recv_Out, Worker 0 Work_Returns, Worker 0 Recv_Out, Worker 0 Work_Returns,
       Worker 0 Idle_Timeout, Call_Wait])
     = Next \<lparr>items = [], closed = False\<rparr>"
  by (simp add: run_defs)

end
